theory Spec2Isabelle
  imports
    Main
    "HOL-Library.Char_ord"
    "HOL-Library.List_Lexorder"
    "HOL-Library.Product_Lexorder"
begin

section \<open>Strings as Python sees them\<close>

text \<open>
  A Python \<open>str\<close> is modelled as a HOL \<open>string\<close>: a list of 8-bit characters, each read
  as the Unicode code point of the same number (0 to 255, the Latin-1 range). The case
  conversions, the whitespace class and the line boundaries below are those of Python's
  \<open>str.lower\<close>, \<open>str.upper\<close>, \<open>str.strip\<close> and \<open>str.splitlines\<close> on these code points.
\<close>

definition code :: "char \<Rightarrow> nat" where
  "code c = of_char c"

text \<open>
  \<open>str.lower\<close>, character by character: the letters A to Z, and the Latin-1 capitals 192 to
  222 other than the multiplication sign 215, move up by 32.
\<close>

definition lower_char :: "char \<Rightarrow> char" where
  "lower_char c =
     (if (65 \<le> code c \<and> code c \<le> 90) \<or> (192 \<le> code c \<and> code c \<le> 222 \<and> code c \<noteq> 215)
      then char_of (code c + 32) else c)"

definition py_lower :: "string \<Rightarrow> string" where
  "py_lower s = map lower_char s"

text \<open>
  \<open>str.upper\<close>, character by character, as code points, since some results leave the
  8-bit range: the letters a to z, and the Latin-1 small letters 224 to 254 other than the
  division sign 247, move down by 32; the sharp s (223) becomes \<open>SS\<close>; the micro sign (181)
  becomes the Greek capital mu (924); y with diaeresis (255) becomes its capital (376).
\<close>

definition upper_points :: "char \<Rightarrow> nat list" where
  "upper_points c =
     (if (97 \<le> code c \<and> code c \<le> 122) \<or> (224 \<le> code c \<and> code c \<le> 254 \<and> code c \<noteq> 247)
      then [code c - 32]
      else if code c = 223 then [83, 83]
      else if code c = 181 then [924]
      else if code c = 255 then [376]
      else [code c])"

definition py_upper :: "string \<Rightarrow> nat list" where
  "py_upper s = concat (map upper_points s)"

text \<open>
  The whitespace that \<open>str.strip\<close> removes: TAB, LF, VT, FF, CR, the separators FS, GS, RS,
  US, the space, NEL (133) and the no-break space (160).
\<close>

definition is_space :: "char \<Rightarrow> bool" where
  "is_space c =
     ((9 \<le> code c \<and> code c \<le> 13) \<or> (28 \<le> code c \<and> code c \<le> 32) \<or>
      code c = 133 \<or> code c = 160)"

definition py_strip :: "string \<Rightarrow> string" where
  "py_strip s = rev (dropWhile is_space (rev (dropWhile is_space s)))"

text \<open>\<open>s.startswith(p)\<close>, \<open>s.endswith(p)\<close> and \<open>p in s\<close>.\<close>

fun startswith :: "'a list \<Rightarrow> 'a list \<Rightarrow> bool" where
  "startswith s [] = True"
| "startswith [] (p # ps) = False"
| "startswith (c # cs) (p # ps) = (c = p \<and> startswith cs ps)"

definition endswith :: "string \<Rightarrow> string \<Rightarrow> bool" where
  "endswith s p = startswith (rev s) (rev p)"

fun contains :: "string \<Rightarrow> string \<Rightarrow> bool" where
  "contains [] p = (p = [])"
| "contains (c # cs) p = (startswith (c # cs) p \<or> contains cs p)"

text \<open>
  \<open>str.splitlines()\<close>: a line ends at LF, CR, CR LF, VT, FF, FS, GS, RS or NEL (133); the
  boundary is dropped, and a text that ends with a boundary has no empty last line. \<open>cur\<close> is the line
  read so far.
\<close>

definition is_linebreak :: "char \<Rightarrow> bool" where
  "is_linebreak c =
     ((10 \<le> code c \<and> code c \<le> 13) \<or> (28 \<le> code c \<and> code c \<le> 30) \<or> code c = 133)"

fun split_from :: "string \<Rightarrow> string \<Rightarrow> string list" where
  "split_from cur [] = (if cur = [] then [] else [cur])"
| "split_from cur [c] = (if is_linebreak c then [cur] else [cur @ [c]])"
| "split_from cur (c # d # cs) =
     (if code c = 13 \<and> code d = 10 then cur # split_from [] cs
      else if is_linebreak c then cur # split_from [] (d # cs)
      else split_from (cur @ [c]) (d # cs))"

definition splitlines :: "string \<Rightarrow> string list" where
  "splitlines text = split_from [] text"

section \<open>text\_utils.py\<close>

definition STOPWORDS :: "string list" where
  "STOPWORDS =
    [''the'', ''a'', ''an'', ''and'', ''or'', ''but'', ''if'', ''in'', ''on'', ''at'', ''to'',
     ''of'', ''for'', ''with'', ''without'', ''from'', ''by'',
     ''i'', ''you'', ''he'', ''she'', ''it'', ''we'', ''they'',
     ''this'', ''that'', ''these'', ''those'', ''is'', ''are'', ''was'', ''were'', ''be'',
     ''as'', ''so'', ''than'', ''then'', ''there'', ''here'']"

subsection \<open>extract\_title\<close>

text \<open>The first loop: over \<open>lines[:60]\<close>, returning at the first line that carries the prefix.\<close>

fun title_loop :: "string list \<Rightarrow> string option" where
  "title_loop [] = None"
| "title_loop (l # ls) =
     (let line = py_strip l
      in if startswith (py_upper line) (map code ''TITLE:'') then Some (py_strip (drop 6 line))
         else title_loop ls)"

text \<open>The fallback loop: over all lines, returning at the first one that is not blank.\<close>

fun fallback_loop :: "string list \<Rightarrow> string" where
  "fallback_loop [] = ''Unknown Title''"
| "fallback_loop (l # ls) = (if py_strip l \<noteq> [] then py_strip l else fallback_loop ls)"

definition extract_title :: "string \<Rightarrow> string" where
  "extract_title text =
     (let lines = splitlines text
      in case title_loop (take 60 lines) of
           Some t \<Rightarrow> t
         | None \<Rightarrow> fallback_loop lines)"

subsection \<open>compute\_top\_words\<close>

text \<open>\<open>re.findall(r"[a-z']+", text)\<close>: the maximal runs of lower-case letters and apostrophes,
  left to right. \<open>cur\<close> is the run read so far.\<close>

definition is_token_char :: "char \<Rightarrow> bool" where
  "is_token_char c = ((97 \<le> code c \<and> code c \<le> 122) \<or> code c = 39)"

fun findall_from :: "string \<Rightarrow> string \<Rightarrow> string list" where
  "findall_from cur [] = (if cur = [] then [] else [cur])"
| "findall_from cur (c # cs) =
     (if is_token_char c then findall_from (cur @ [c]) cs
      else if cur = [] then findall_from [] cs
      else cur # findall_from [] cs)"

definition findall_tokens :: "string \<Rightarrow> string list" where
  "findall_tokens text = findall_from [] text"

text \<open>
  \<open>collections.Counter(filtered)\<close>: a dictionary in insertion order, here the list of its
  items. Counting an element adds one to its entry, or appends a new entry with count 1.
\<close>

fun counter_add :: "(string \<times> int) list \<Rightarrow> string \<Rightarrow> (string \<times> int) list" where
  "counter_add [] w = [(w, 1)]"
| "counter_add ((k, c) # kcs) w =
     (if k = w then (k, c + 1) # kcs else (k, c) # counter_add kcs w)"

definition Counter :: "string list \<Rightarrow> (string \<times> int) list" where
  "Counter ws = foldl counter_add [] ws"

text \<open>
  \<open>Counter.most_common(n)\<close> is \<open>heapq.nlargest(n, items, key=count)\<close>, which the library
  documents as \<open>sorted(items, key=count, reverse=True)[:n]\<close>: a stable sort by descending
  count (items of equal count stay in dictionary order), cut to \<open>n\<close> items, and to none
  when \<open>n \<le> 0\<close>.
\<close>

definition most_common :: "int \<Rightarrow> (string \<times> int) list \<Rightarrow> (string \<times> int) list" where
  "most_common n items = take (nat n) (sort_key (\<lambda>(w, c). - c) items)"

definition compute_top_words :: "string \<Rightarrow> int \<Rightarrow> (string \<times> int) list" where
  "compute_top_words text n =
     (let tokens = findall_tokens (py_lower text);
          filtered = filter (\<lambda>t. t \<notin> set STOPWORDS \<and> length t > 1) tokens
      in most_common n (Counter filtered))"

subsection \<open>search\_gutenberg\_by\_title and fetch\_book\_text\<close>

text \<open>
  Exceptions are values. \<open>RequestException\<close> is what \<open>requests\<close> raises for a transport
  failure or a non-success status, \<open>IntegrityError\<close> what \<open>sqlite3\<close> raises for a violated
  constraint, \<open>OverflowError\<close> what it raises for an integer that does not fit the 64 bits of
  an SQLite INTEGER, \<open>OtherException\<close> any other exception.
\<close>

datatype error = RequestException | IntegrityError | OverflowError | OtherException

text \<open>
  The JSON of the catalog: an object that may have a \<open>results\<close> list of books, each of
  which may have a \<open>formats\<close> object, read in its order as (label, location) pairs.
\<close>

datatype catalog_book = CatalogBook (formats: "(string \<times> string) list option")

datatype catalog_data = CatalogData (results: "catalog_book list option")

text \<open>
  The network, as the two requests see it: what the catalog answers to the search for a
  title (the query string is the title, URL-encoded), and what a location answers.
\<close>

record web =
  catalog :: "string \<Rightarrow> error + catalog_data"
  page :: "string \<Rightarrow> error + string"

definition fetch_book_text :: "web \<Rightarrow> string \<Rightarrow> error + string" where
  "fetch_book_text w url = page w url"

text \<open>The loop that prefers a \<open>text/plain\<close> entry ending in \<open>.txt\<close>, and the fallback loop.\<close>

fun prefer_txt :: "(string \<times> string) list \<Rightarrow> string option" where
  "prefer_txt [] = None"
| "prefer_txt ((key, val) # rest) =
     (if contains key ''text/plain'' \<and> endswith val ''.txt'' then Some val
      else prefer_txt rest)"

fun any_plain :: "(string \<times> string) list \<Rightarrow> string option" where
  "any_plain [] = None"
| "any_plain ((key, val) # rest) =
     (if contains key ''text/plain'' then Some val else any_plain rest)"

definition search_gutenberg_by_title :: "web \<Rightarrow> string \<Rightarrow> error + string option" where
  "search_gutenberg_by_title w title =
     (if title = [] then Inr None
      else case catalog w title of
        Inl e \<Rightarrow> Inl e
      | Inr data \<Rightarrow>
          (case (case results data of None \<Rightarrow> [] | Some rs \<Rightarrow> rs) of
             [] \<Rightarrow> Inr None
           | first_book # _ \<Rightarrow>
               (let fs = (case formats first_book of None \<Rightarrow> [] | Some fs \<Rightarrow> fs)
                in case prefer_txt fs of
                     Some val \<Rightarrow> Inr (Some val)
                   | None \<Rightarrow> Inr (any_plain fs))))"

section \<open>db\_utils.py\<close>

text \<open>
  The database file: the rows of \<open>books\<close> (id, title, url) and of \<open>word_freqs\<close>
  (id, book\_id, word, frequency) in rowid order, and the AUTOINCREMENT counter of each
  table. A value of this type is a committed state.
\<close>

type_synonym book_row = "nat \<times> string \<times> string"

type_synonym word_freq_row = "nat \<times> nat \<times> string \<times> int"

record db =
  books :: "book_row list"
  books_seq :: nat
  word_freqs :: "word_freq_row list"
  word_freqs_seq :: nat

text \<open>\<open>CREATE TABLE IF NOT EXISTS\<close>: a file without tables gets two empty ones.\<close>

definition init_db :: "db option \<Rightarrow> db" where
  "init_db file =
     (case file of
        None \<Rightarrow> \<lparr>books = [], books_seq = 0, word_freqs = [], word_freqs_seq = 0\<rparr>
      | Some d \<Rightarrow> d)"

text \<open>
  A new row of an AUTOINCREMENT table gets the rowid after the largest one the table has
  had: one more than the larger of the table's counter in \<open>sqlite_sequence\<close> and the
  largest rowid present.
\<close>

definition next_rowid :: "nat \<Rightarrow> nat list \<Rightarrow> nat" where
  "next_rowid seq ids = Suc (max seq (fold max ids 0))"

text \<open>SQL \<open>LOWER\<close> folds the ASCII letters A to Z only.\<close>

definition sql_lower :: "string \<Rightarrow> string" where
  "sql_lower s =
     map (\<lambda>c. if 65 \<le> code c \<and> code c \<le> 90 then char_of (code c + 32) else c) s"

text \<open>\<open>WHERE LOWER(title) = LOWER(?)\<close> and \<open>fetchone\<close>: the first such row of the table.\<close>

definition get_book_by_title :: "string \<Rightarrow> db \<Rightarrow> book_row option" where
  "get_book_by_title title d =
     find (\<lambda>(i, t, u). sql_lower t = sql_lower title) (books d)"

text \<open>\<open>WHERE book_id = ? ORDER BY frequency DESC, word ASC\<close>, words compared as byte strings.\<close>

definition get_word_frequencies :: "nat \<Rightarrow> db \<Rightarrow> (string \<times> int) list" where
  "get_word_frequencies book_id d =
     map (\<lambda>(i, b, w, f). (w, f))
       (sort_key (\<lambda>(i, b, w, f). (- f, w))
          (filter (\<lambda>(i, b, w, f). b = book_id) (word_freqs d)))"

text \<open>
  \<open>INSERT INTO books ... ON CONFLICT(title) DO UPDATE SET url = excluded.url\<close>. The
  \<open>UNIQUE\<close> constraint on \<open>title\<close> has the default collation, which compares exactly.
  The INSERT draws its rowid, and advances the counter of the table, before the conflict is
  found, so the counter advances on the update path too.
\<close>

definition upsert_book :: "string \<Rightarrow> string \<Rightarrow> db \<Rightarrow> db" where
  "upsert_book title url d =
     (let new_id = next_rowid (books_seq d) (map fst (books d))
      in if list_ex (\<lambda>(i, t, u). t = title) (books d)
         then d\<lparr>books := map (\<lambda>(i, t, u). if t = title then (i, t, url) else (i, t, u)) (books d),
                 books_seq := new_id\<rparr>
         else d\<lparr>books := books d @ [(new_id, title, url)], books_seq := new_id\<rparr>)"

text \<open>
  \<open>executemany\<close> of the INSERT into \<open>word_freqs\<close>, row by row inside the open transaction.
  Binding the parameters of a row raises when the frequency is outside the signed 64-bit
  range; running the statement raises when a row with the same (book\_id, word) is already
  there, which violates \<open>UNIQUE(book_id, word)\<close>.
\<close>

fun insert_word_freqs :: "nat \<Rightarrow> (string \<times> int) list \<Rightarrow> db \<Rightarrow> error + db" where
  "insert_word_freqs book_id [] d = Inr d"
| "insert_word_freqs book_id ((w, f) # rest) d =
     (if f < - (2 ^ 63) \<or> 2 ^ 63 - 1 < f then Inl OverflowError
      else if list_ex (\<lambda>(i, b, w', f'). b = book_id \<and> w' = w) (word_freqs d)
      then Inl IntegrityError
      else (let new_id = next_rowid (word_freqs_seq d) (map fst (word_freqs d))
            in insert_word_freqs book_id rest
                 (d\<lparr>word_freqs := word_freqs d @ [(new_id, book_id, w, f)],
                    word_freqs_seq := new_id\<rparr>)))"

text \<open>
  \<open>insert_or_update_book\<close> returns the committed state it leaves, with the exception it
  raised, if any. The upsert of the book is committed by the first \<open>conn.commit()\<close>. The
  DELETE and the INSERTs run in the transaction that the DELETE opens; it is committed by
  the second \<open>conn.commit()\<close>, and an exception closes the connection without a commit,
  which rolls the transaction back to the state after the first commit.
\<close>

definition insert_or_update_book ::
  "string \<Rightarrow> string \<Rightarrow> (string \<times> int) list \<Rightarrow> db \<Rightarrow> (error + unit) \<times> db" where
  "insert_or_update_book title url wfs d =
     (let d1 = upsert_book title url d
      in case find (\<lambda>(i, t, u). t = title) (books d1) of
           None \<Rightarrow> (Inr (), d1)
         | Some (book_id, t, u) \<Rightarrow>
             (let d2 = d1\<lparr>word_freqs := filter (\<lambda>(i, b, w, f). b \<noteq> book_id) (word_freqs d1)\<rparr>
              in case insert_word_freqs book_id wfs d2 of
                   Inl e \<Rightarrow> (Inl e, d1)
                 | Inr d3 \<Rightarrow> (Inr (), d3)))"

section \<open>main.py\<close>

text \<open>
  What \<open>on_search_title\<close> leaves on the screen: the status line, and the rows of the
  result table where it fills it.
\<close>

datatype outcome =
    PleaseEnterTitle
  | Loaded string "(string \<times> int) list"
  | BookNotFound
  | Retrieved string "(string \<times> int) list"
  | NetworkError
  | OtherError

definition report :: "error \<Rightarrow> outcome" where
  "report e = (if e = RequestException then NetworkError else OtherError)"

text \<open>Steps 2 and 3 of \<open>on_search_title\<close>: resolve the title, fetch, analyze, store.\<close>

definition from_web :: "web \<Rightarrow> string \<Rightarrow> db \<Rightarrow> outcome \<times> db" where
  "from_web w title d =
     (case search_gutenberg_by_title w title of
        Inl e \<Rightarrow> (report e, d)
      | Inr None \<Rightarrow> (BookNotFound, d)
      | Inr (Some text_url) \<Rightarrow>
          if text_url = [] then (BookNotFound, d)
          else (case fetch_book_text w text_url of
                  Inl e \<Rightarrow> (report e, d)
                | Inr text \<Rightarrow>
                    (let book_title = extract_title text;
                         top_words = compute_top_words text 10
                     in case insert_or_update_book book_title text_url top_words d of
                          (Inl e, d') \<Rightarrow> (report e, d')
                        | (Inr u, d') \<Rightarrow> (Retrieved book_title top_words, d'))))"

definition on_search_title :: "web \<Rightarrow> string \<Rightarrow> db \<Rightarrow> outcome \<times> db" where
  "on_search_title w entry d =
     (let title = py_strip entry
      in if title = [] then (PleaseEnterTitle, d)
         else (case get_book_by_title title d of
                 None \<Rightarrow> from_web w title d
               | Some (book_id, stored_title, url) \<Rightarrow>
                   (let wfs = get_word_frequencies book_id d
                    in if wfs \<noteq> [] then (Loaded stored_title (take 10 wfs), d)
                       else from_web w title d)))"

section \<open>Notions used in the statements\<close>

text \<open>The specification's wording of the title extractor and of the choice of a location.\<close>

definition extract_title_spec :: "string \<Rightarrow> string" where
  "extract_title_spec text =
     (case find (\<lambda>l. py_lower (take 6 (py_strip l)) = ''title:'') (take 60 (splitlines text)) of
        Some l \<Rightarrow> py_strip (drop 6 (py_strip l))
      | None \<Rightarrow>
          (case find (\<lambda>l. py_strip l \<noteq> []) (splitlines text) of
             Some l \<Rightarrow> py_strip l
           | None \<Rightarrow> ''Unknown Title''))"

definition select_location_spec :: "(string \<times> string) list \<Rightarrow> string option" where
  "select_location_spec fs =
     (case find (\<lambda>(label, loc). contains label ''text/plain'' \<and> endswith loc ''.txt'') fs of
        Some (label, loc) \<Rightarrow> Some loc
      | None \<Rightarrow>
          (case find (\<lambda>(label, loc). contains label ''text/plain'') fs of
             Some (label, loc) \<Rightarrow> Some loc
           | None \<Rightarrow> None))"

text \<open>
  The code points of the characters of \<open>TITLE:\<close>, and the code point of the lower-case
  form of each.
\<close>

definition title_points :: "nat set" where
  "title_points = {84, 73, 76, 69, 58}"

definition lower_point :: "nat \<Rightarrow> nat" where
  "lower_point x = (if x = 58 then 58 else x + 32)"

text \<open>A letter, for stating that a returned word has none.\<close>

definition is_letter :: "char \<Rightarrow> bool" where
  "is_letter c = ((65 \<le> code c \<and> code c \<le> 90) \<or> (97 \<le> code c \<and> code c \<le> 122))"

text \<open>
  The value of the local variable \<open>filtered\<close> of \<open>compute_top_words\<close>, and the position
  at which a word first occurs in a list of words.
\<close>

definition filtered_tokens :: "string \<Rightarrow> string list" where
  "filtered_tokens text =
     filter (\<lambda>t. t \<notin> set STOPWORDS \<and> length t > 1) (findall_tokens (py_lower text))"

definition first_index :: "string list \<Rightarrow> string \<Rightarrow> nat" where
  "first_index ws w = length (takeWhile (\<lambda>x. x \<noteq> w) ws)"

text \<open>
  The (word, frequency) pairs stored for a book, in table order; the titles of the stored
  books; and a sequence of calls of \<open>insert_or_update_book\<close>, each given as (title, url,
  word frequencies).
\<close>

definition stored_rows :: "nat \<Rightarrow> db \<Rightarrow> (string \<times> int) list" where
  "stored_rows book_id d =
     map (\<lambda>(i, b, wd, f). (wd, f)) (filter (\<lambda>(i, b, wd, f). b = book_id) (word_freqs d))"

definition titles :: "db \<Rightarrow> string list" where
  "titles d = map (\<lambda>(i, t, u). t) (books d)"

fun store_all :: "(string \<times> string \<times> (string \<times> int) list) list \<Rightarrow> db \<Rightarrow> db" where
  "store_all [] d = d"
| "store_all ((title, url, wfs) # calls) d =
     store_all calls (snd (insert_or_update_book title url wfs d))"

section \<open>Example data\<close>

text \<open>
  A catalog answer whose first book offers an HTML page and two plain-text files, a network
  that serves it together with a short book, the same network with the download failing,
  and a store holding a book that has no frequency rows.
\<close>

definition example_catalog :: catalog_data where
  "example_catalog =
     CatalogData (Some [CatalogBook (Some
       [(''text/html'', ''http://g/1.html''),
        (''text/plain; charset=utf-8'', ''http://g/1.txt.utf-8''),
        (''text/plain; charset=us-ascii'', ''http://g/1.txt'')])])"

definition example_web :: web where
  "example_web =
     \<lparr>catalog = (\<lambda>title. Inr example_catalog),
      page = (\<lambda>url. Inr ''Title: Cats\<newline>The cat sat on the mat. The Cat ran.'')\<rparr>"

definition offline_web :: web where
  "offline_web =
     \<lparr>catalog = (\<lambda>title. Inr example_catalog), page = (\<lambda>url. Inl RequestException)\<rparr>"

definition empty_entry_db :: db where
  "empty_entry_db = snd (insert_or_update_book ''Cats'' ''http://g/0.txt'' [] (init_db None))"

text \<open>A store holding one analyzed book.\<close>

definition moby_db :: db where
  "moby_db =
     snd (insert_or_update_book ''Moby Dick'' ''http://g/1.txt'' [(''whale'', 3)] (init_db None))"

section \<open>Properties of the analyzer\<close>

subsection \<open>The counter\<close>

lemma counter_add_keys: "fst ` set (counter_add acc w) = insert w (fst ` set acc)"
  by (induction acc w rule: counter_add.induct) auto

lemma counter_add_map_fst:
  "map fst (counter_add acc w) = (if w \<in> fst ` set acc then map fst acc else map fst acc @ [w])"
  by (induction acc w rule: counter_add.induct) auto

lemma counter_add_positive:
  "list_all (\<lambda>(k, c). 1 \<le> c) acc \<Longrightarrow> list_all (\<lambda>(k, c). 1 \<le> c) (counter_add acc w)"
  by (induction acc w rule: counter_add.induct) auto

lemma Counter_snoc: "Counter (ws @ [w]) = counter_add (Counter ws) w"
  by (simp add: Counter_def)

lemma Counter_keys: "fst ` set (Counter ws) = set ws"
  by (induction ws rule: rev_induct) (auto simp: Counter_snoc counter_add_keys, simp add: Counter_def)

lemma Counter_positive: "list_all (\<lambda>(k, c). 1 \<le> c) (Counter ws)"
  by (induction ws rule: rev_induct) (simp_all add: Counter_snoc counter_add_positive, simp add: Counter_def)

lemma Counter_distinct: "distinct (map fst (Counter ws))"
  by (induction ws rule: rev_induct) (auto simp: Counter_snoc counter_add_map_fst, simp add: Counter_def)

lemma most_common_subset: "set (most_common n items) \<subseteq> set items"
  unfolding most_common_def using set_take_subset [of "nat n" "sort_key (\<lambda>(w, c). - c) items"] by simp

lemma most_common_length: "length (most_common n items) \<le> nat n"
  by (simp add: most_common_def)

subsection \<open>Size and content of the result\<close>

text \<open>
  C7. For every text and every \<open>n\<close>, \<open>compute_top_words\<close> returns at most \<open>n\<close> entries
  (none when \<open>n \<le> 0\<close>), every returned count is at least 1, and no returned word is in
  the stopword set or has length at most 1.
\<close>

theorem compute_top_words_bounds:
  "length (compute_top_words text n) \<le> nat n \<and>
   (\<forall>(w, c) \<in> set (compute_top_words text n).
      1 \<le> c \<and> w \<notin> set STOPWORDS \<and> 1 < length w)"
proof -
  define filtered where
    "filtered = filter (\<lambda>t. t \<notin> set STOPWORDS \<and> length t > 1)
                  (findall_tokens (py_lower text))"
  have res: "compute_top_words text n = most_common n (Counter filtered)"
    by (simp add: compute_top_words_def filtered_def)
  have len: "length (compute_top_words text n) \<le> nat n"
    by (simp add: res most_common_length)
  have "1 \<le> c \<and> w \<notin> set STOPWORDS \<and> 1 < length w"
    if "(w, c) \<in> set (compute_top_words text n)" for w c
  proof -
    from that have mem: "(w, c) \<in> set (Counter filtered)"
      using most_common_subset [of n "Counter filtered"] by (auto simp: res)
    then have "1 \<le> c"
      using Counter_positive [of filtered] by (auto simp: list_all_iff)
    moreover from mem have "w \<in> set filtered"
      using Counter_keys [of filtered] by force
    then have "w \<notin> set STOPWORDS \<and> 1 < length w"
      by (simp add: filtered_def)
    ultimately show ?thesis by simp
  qed
  with len show ?thesis by blast
qed

theorem compute_top_words_bounds_witness:
  "(''cat'', 2) \<in> set (compute_top_words ''The cat sat on the mat. The Cat ran.'' 10) \<and>
   length (compute_top_words ''The cat sat on the mat. The Cat ran.'' 10) \<le> 10 \<and>
   ''cat'' \<notin> set STOPWORDS \<and> 1 < length ''cat''"
proof -
  have run: "compute_top_words ''The cat sat on the mat. The Cat ran.'' 10 =
      [(''cat'', 2), (''sat'', 1), (''mat'', 1), (''ran'', 1)]"
    by code_simp
  show ?thesis
    using compute_top_words_bounds [of "''The cat sat on the mat. The Cat ran.''" 10]
    unfolding run by simp
qed

text \<open>
  C10. Some text makes \<open>compute_top_words\<close> return a word without any letter: in the text
  made of two apostrophes, \<open>hello\<close>, and two apostrophes again, each pair of apostrophes is
  a maximal run of the token pattern, is no stopword and is longer than one character, so
  it is counted (twice) and returned first.
\<close>

theorem apostrophes_counted_as_word:
  "compute_top_words ([CHR 0x27, CHR 0x27] @ '' hello '' @ [CHR 0x27, CHR 0x27]) 10 =
     [([CHR 0x27, CHR 0x27], 2), (''hello'', 1)] \<and>
   filter is_letter [CHR 0x27, CHR 0x27] = []"
  by code_simp

subsection \<open>The order of the result\<close>

lemma insort_key_stable:
  fixes f :: "'a \<Rightarrow> 'k::linorder"
  assumes "sorted_wrt (\<lambda>a b. f a < f b \<or> (f a = f b \<and> R a b)) ys"
    and "\<forall>y \<in> set ys. R x y"
  shows "sorted_wrt (\<lambda>a b. f a < f b \<or> (f a = f b \<and> R a b)) (insort_key f x ys)"
  using assms
proof (induction ys)
  case Nil
  then show ?case by simp
next
  case (Cons y ys)
  show ?case
  proof (cases "f x \<le> f y")
    case True
    have "f x < f z \<or> (f x = f z \<and> R x z)" if "z \<in> set (y # ys)" for z
    proof -
      from that Cons.prems(1) have "f y \<le> f z" by auto
      with True have "f x \<le> f z" by simp
      moreover from that Cons.prems(2) have "R x z" by auto
      ultimately show ?thesis by auto
    qed
    with True Cons.prems(1) show ?thesis by simp
  next
    case False
    from Cons.prems have "sorted_wrt (\<lambda>a b. f a < f b \<or> (f a = f b \<and> R a b)) (insort_key f x ys)"
      by (intro Cons.IH) simp_all
    with False Cons.prems(1) show ?thesis
      by (auto simp: set_insort_key)
  qed
qed

lemma sort_key_stable_order:
  fixes f :: "'a \<Rightarrow> 'k::linorder"
  assumes "sorted_wrt R xs"
  shows "sorted_wrt (\<lambda>a b. f a < f b \<or> (f a = f b \<and> R a b)) (sort_key f xs)"
  using assms
proof (induction xs)
  case Nil
  then show ?case by simp
next
  case (Cons x xs)
  then have "sorted_wrt (\<lambda>a b. f a < f b \<or> (f a = f b \<and> R a b)) (sort_key f xs)"
    and "\<forall>y \<in> set (sort_key f xs). R x y"
    by simp_all
  then show ?case
    by (simp add: insort_key_stable)
qed

lemma first_index_snoc_old: "k \<in> set ws \<Longrightarrow> first_index (ws @ [w]) k = first_index ws k"
  by (induction ws) (auto simp: first_index_def)

lemma first_index_snoc_new: "w \<notin> set ws \<Longrightarrow> first_index (ws @ [w]) w = length ws"
  by (induction ws) (auto simp: first_index_def)

lemma first_index_less: "k \<in> set ws \<Longrightarrow> first_index ws k < length ws"
  by (induction ws) (auto simp: first_index_def)

lemma Counter_keys_in_text_order:
  "sorted_wrt (\<lambda>a b. first_index ws a < first_index ws b) (map fst (Counter ws))"
proof (induction ws rule: rev_induct)
  case Nil
  then show ?case by (simp add: Counter_def)
next
  case (snoc w ws)
  have keys: "set (map fst (Counter ws)) = set ws"
    using Counter_keys [of ws] by simp
  have old: "sorted_wrt (\<lambda>a b. first_index (ws @ [w]) a < first_index (ws @ [w]) b)
               (map fst (Counter ws))"
    using snoc.IH
    by (rule sorted_wrt_mono_rel [rotated]) (simp add: Counter_keys first_index_snoc_old)
  show ?case
  proof (cases "w \<in> set ws")
    case True
    with old show ?thesis
      using Counter_keys [of ws] by (simp add: Counter_snoc counter_add_map_fst)
  next
    case False
    have "first_index (ws @ [w]) k < first_index (ws @ [w]) w" if "k \<in> set ws" for k
      using that False by (simp add: first_index_snoc_old first_index_snoc_new first_index_less)
    with old False show ?thesis
      using Counter_keys [of ws]
      by (simp add: Counter_snoc counter_add_map_fst sorted_wrt_append keys)
  qed
qed

lemma counter_add_count:
  "distinct (map fst acc) \<Longrightarrow>
   map_of (counter_add acc w) =
     (map_of acc)(w \<mapsto> (case map_of acc w of None \<Rightarrow> 1 | Some c \<Rightarrow> c + 1))"
  by (induction acc w rule: counter_add.induct) (auto simp: fun_eq_iff)

lemma Counter_counts:
  "map_of (Counter ws) w = (if w \<in> set ws then Some (int (count_list ws w)) else None)"
proof (induction ws arbitrary: w rule: rev_induct)
  case Nil
  then show ?case by (simp add: Counter_def)
next
  case (snoc x ws)
  show ?case
    by (simp add: Counter_snoc counter_add_count Counter_distinct snoc.IH)
qed

lemma most_common_order:
  "sorted_wrt (\<lambda>a b. snd b < snd a \<or> (snd a = snd b \<and> first_index ws (fst a) < first_index ws (fst b)))
     (most_common n (Counter ws))"
proof -
  have "sorted_wrt (\<lambda>a b. first_index ws (fst a) < first_index ws (fst b)) (Counter ws)"
    using Counter_keys_in_text_order [of ws] by (simp add: sorted_wrt_map)
  then have "sorted_wrt
      (\<lambda>a b. (case a of (w, c) \<Rightarrow> - c) < (case b of (w, c) \<Rightarrow> - c) \<or>
              ((case a of (w, c) \<Rightarrow> - c) = (case b of (w, c) \<Rightarrow> - c) \<and>
               first_index ws (fst a) < first_index ws (fst b)))
      (sort_key (\<lambda>(w, c). - c) (Counter ws))"
    by (rule sort_key_stable_order)
  then have "sorted_wrt
      (\<lambda>a b. snd b < snd a \<or> (snd a = snd b \<and> first_index ws (fst a) < first_index ws (fst b)))
      (sort_key (\<lambda>(w, c). - c) (Counter ws))"
    by (rule sorted_wrt_mono_rel [rotated]) (auto simp: case_prod_beta)
  then show ?thesis
    by (simp add: most_common_def)
qed

lemma compute_top_words_filtered:
  "compute_top_words text n = most_common n (Counter (filtered_tokens text))"
  by (simp add: compute_top_words_def filtered_tokens_def)

lemma compute_top_words_counts:
  assumes "(w, c) \<in> set (compute_top_words text n)"
  shows "c = int (count_list (filtered_tokens text) w)"
proof -
  from assms have mem: "(w, c) \<in> set (Counter (filtered_tokens text))"
    using most_common_subset [of n "Counter (filtered_tokens text)"]
    by (auto simp: compute_top_words_filtered)
  then have "map_of (Counter (filtered_tokens text)) w = Some c"
    by (simp add: Counter_distinct)
  moreover from mem have "w \<in> set (filtered_tokens text)"
    using Counter_keys [of "filtered_tokens text"] by force
  ultimately show ?thesis
    by (simp add: Counter_counts)
qed

lemma top_words_example:
  "compute_top_words ''The cat sat on the mat. The Cat ran.'' 10 =
     [(''cat'', 2), (''sat'', 1), (''mat'', 1), (''ran'', 1)]"
  by code_simp

text \<open>
  What holds of the order for every text and every \<open>n\<close>: the result is sorted by count
  descending, and words of equal count are in the order in which they first occur among
  the counted tokens.
\<close>

lemma compute_top_words_order:
  "sorted_wrt
     (\<lambda>(w1, c1) (w2, c2).
        c2 < c1 \<or>
        (c1 = c2 \<and> first_index (filtered_tokens text) w1 < first_index (filtered_tokens text) w2))
     (compute_top_words text n)"
proof -
  have "sorted_wrt
      (\<lambda>a b. snd b < snd a \<or>
         (snd a = snd b \<and>
          first_index (filtered_tokens text) (fst a) < first_index (filtered_tokens text) (fst b)))
      (compute_top_words text n)"
    unfolding compute_top_words_filtered by (rule most_common_order)
  then show ?thesis
    by (rule sorted_wrt_mono_rel [rotated]) auto
qed

text \<open>
  C1. The specification asks for count descending with ties in ascending word order, and
  for cat 2, mat 1, ran 1, sat 1 on its example. On that example \<open>compute_top_words\<close>
  returns cat 2, sat 1, mat 1, ran 1: the words of count 1 are in the order in which they
  first occur in the text, so the result is not the list of the specification and is not
  sorted by count descending, then word ascending (\<open>sat\<close> comes before \<open>mat\<close>).
\<close>

theorem example_ties_not_alphabetical:
  "compute_top_words ''The cat sat on the mat. The Cat ran.'' 10 =
     [(''cat'', 2), (''sat'', 1), (''mat'', 1), (''ran'', 1)] \<and>
   compute_top_words ''The cat sat on the mat. The Cat ran.'' 10 \<noteq>
     [(''cat'', 2), (''mat'', 1), (''ran'', 1), (''sat'', 1)] \<and>
   \<not> sorted_wrt (\<lambda>(w1, c1) (w2, c2). c2 < c1 \<or> (c1 = c2 \<and> w1 < w2))
       (compute_top_words ''The cat sat on the mat. The Cat ran.'' 10)"
  unfolding top_words_example by code_simp

section \<open>Properties of the title extractor\<close>

lemma startswith_take: "startswith s p \<longleftrightarrow> take (length p) s = p"
  by (induction s p rule: startswith.induct) auto

lemma startswith_append: "startswith s p \<longleftrightarrow> (\<exists>b. s = p @ b)"
  by (metis append_eq_conv_conj append_take_drop_id startswith_take)

lemma endswith_append: "endswith s p \<longleftrightarrow> (\<exists>a. s = a @ p)"
proof -
  have "endswith s p \<longleftrightarrow> (\<exists>b. rev s = rev p @ b)"
    by (simp add: endswith_def startswith_append)
  also have "\<dots> \<longleftrightarrow> (\<exists>a. s = a @ p)"
    by (metis rev_append rev_rev_ident)
  finally show ?thesis .
qed

lemma contains_append: "contains s p \<longleftrightarrow> (\<exists>a b. s = a @ p @ b)"
proof (induction s)
  case Nil
  then show ?case by auto
next
  case (Cons c cs)
  show ?case
  proof
    assume "contains (c # cs) p"
    then consider "startswith (c # cs) p" | "contains cs p" by auto
    then show "\<exists>a b. c # cs = a @ p @ b"
    proof cases
      case 1
      then obtain b where "c # cs = p @ b" using startswith_append by blast
      then have "c # cs = [] @ p @ b" by simp
      then show ?thesis by blast
    next
      case 2
      then obtain a b where "cs = a @ p @ b" using Cons.IH by blast
      then have "c # cs = (c # a) @ p @ b" by simp
      then show ?thesis by blast
    qed
  next
    assume "\<exists>a b. c # cs = a @ p @ b"
    then obtain a b where ab: "c # cs = a @ p @ b" by blast
    show "contains (c # cs) p"
    proof (cases a)
      case Nil
      with ab have "startswith (c # cs) p" using startswith_append by auto
      then show ?thesis by simp
    next
      case (Cons x a')
      with ab have "cs = a' @ p @ b" by simp
      then have "contains cs p" using Cons.IH by blast
      then show ?thesis by simp
    qed
  qed
qed

subsection \<open>What trimming and line splitting do\<close>

text \<open>
  \<open>py_strip\<close> removes a run of whitespace at each end and nothing else, and what is left
  neither starts nor ends with whitespace.
\<close>

lemma py_strip_parts:
  "\<exists>a b. s = a @ py_strip s @ b \<and> list_all is_space a \<and> list_all is_space b"
proof -
  define m where "m = dropWhile is_space s"
  have s: "s = takeWhile is_space s @ m"
    by (simp add: m_def)
  have m: "m = py_strip s @ rev (takeWhile is_space (rev m))"
    unfolding py_strip_def m_def [symmetric]
    by (metis rev_append rev_rev_ident takeWhile_dropWhile_id)
  have a: "list_all is_space (takeWhile is_space s)"
    by (auto simp: list_all_iff dest: set_takeWhileD)
  have b: "list_all is_space (rev (takeWhile is_space (rev m)))"
    by (auto simp: list_all_iff dest: set_takeWhileD)
  from s m have "s = takeWhile is_space s @ py_strip s @ rev (takeWhile is_space (rev m))"
    by simp
  with a b show ?thesis by blast
qed

lemma last_dropWhile: "dropWhile P xs \<noteq> [] \<Longrightarrow> last (dropWhile P xs) = last xs"
  by (metis last_appendR takeWhile_dropWhile_id)

lemma py_strip_ends:
  assumes "py_strip s \<noteq> []"
  shows "\<not> is_space (hd (py_strip s)) \<and> \<not> is_space (last (py_strip s))"
proof -
  define m where "m = dropWhile is_space s"
  define k where "k = dropWhile is_space (rev m)"
  have strip: "py_strip s = rev k"
    by (simp add: py_strip_def m_def k_def)
  with assms have k: "k \<noteq> []" by simp
  then have "\<not> is_space (hd k)"
    unfolding k_def by (rule hd_dropWhile)
  with k have at_end: "\<not> is_space (last (py_strip s))"
    by (simp add: strip last_rev)
  from k have m: "m \<noteq> []"
    by (auto simp: k_def)
  then have "\<not> is_space (hd m)"
    unfolding m_def by (rule hd_dropWhile)
  moreover have "last k = last (rev m)"
    using k unfolding k_def by (rule last_dropWhile)
  moreover have "last (rev m) = hd m"
    using m by (simp add: last_rev)
  moreover have "hd (py_strip s) = last k"
    using k by (simp add: strip hd_rev)
  ultimately show ?thesis
    using at_end by simp
qed

text \<open>
  \<open>splitlines\<close> drops the line boundaries and nothing else, and no line has a boundary in
  it.
\<close>

lemma split_from_concat:
  "concat (split_from cur s) = cur @ filter (\<lambda>c. \<not> is_linebreak c) s"
  by (induction cur s rule: split_from.induct) (auto simp: is_linebreak_def)

lemma splitlines_concat: "concat (splitlines s) = filter (\<lambda>c. \<not> is_linebreak c) s"
  by (simp add: splitlines_def split_from_concat)

lemma split_from_lines:
  "list_all (\<lambda>c. \<not> is_linebreak c) cur \<Longrightarrow> l \<in> set (split_from cur s) \<Longrightarrow>
   list_all (\<lambda>c. \<not> is_linebreak c) l"
  by (induction cur s arbitrary: l rule: split_from.induct) (auto split: if_splits)

lemma splitlines_lines:
  "l \<in> set (splitlines s) \<Longrightarrow> list_all (\<lambda>c. \<not> is_linebreak c) l"
  using split_from_lines [of "[]" l s] by (simp add: splitlines_def)

subsection \<open>The prefix test\<close>

lemma code_less: "code c < 256"
  by (simp add: code_def)

lemma code_lower_char:
  "code (lower_char c) =
     (if (65 \<le> code c \<and> code c \<le> 90) \<or> (192 \<le> code c \<and> code c \<le> 222 \<and> code c \<noteq> 215)
      then code c + 32 else code c)"
  using code_less [of c] by (simp add: lower_char_def code_def)

text \<open>
  Only the letter itself, in either case, has a letter of \<open>TITLE:\<close> as its upper-case
  form, and only the colon has the colon; the two-letter upper-case form of the sharp s
  starts with none of them.
\<close>

lemma upper_points_title:
  assumes "x \<in> title_points"
  shows "upper_points c = [x] \<longleftrightarrow> code (lower_char c) = lower_point x"
  using assms code_less [of c]
  unfolding title_points_def lower_point_def code_lower_char upper_points_def
  by auto

lemma upper_points_head:
  assumes "x \<in> title_points" and "upper_points c = x # r"
  shows "r = []"
  using assms unfolding title_points_def upper_points_def
  by (auto split: if_splits)

lemma upper_points_nonempty: "upper_points c \<noteq> []"
  by (simp add: upper_points_def)

lemma startswith_upper:
  assumes "set p \<subseteq> title_points"
  shows "startswith (py_upper s) p \<longleftrightarrow>
         list_all2 (\<lambda>c x. upper_points c = [x]) (take (length p) s) p"
  using assms
proof (induction p arbitrary: s)
  case Nil
  then show ?case by simp
next
  case (Cons x p)
  show ?case
  proof (cases s)
    case Nil
    then show ?thesis by (simp add: py_upper_def)
  next
    case (Cons c cs)
    obtain y r where up: "upper_points c = y # r"
      using upper_points_nonempty [of c] by (cases "upper_points c") auto
    show ?thesis
    proof (cases "y = x")
      case True
      with up Cons.prems have r: "r = []"
        using upper_points_head [of x c r] by simp
      have "startswith (py_upper s) (x # p) \<longleftrightarrow> startswith (py_upper cs) p"
        using up r True by (simp add: py_upper_def \<open>s = c # cs\<close>)
      also have "\<dots> \<longleftrightarrow> list_all2 (\<lambda>c x. upper_points c = [x]) (take (length p) cs) p"
        using Cons.prems by (intro Cons.IH) simp
      finally show ?thesis
        using up r True by (simp add: \<open>s = c # cs\<close>)
    next
      case False
      with up show ?thesis
        by (simp add: py_upper_def \<open>s = c # cs\<close>)
    qed
  qed
qed

lemma list_all2_upper_lower:
  assumes "set p \<subseteq> title_points"
  shows "list_all2 (\<lambda>c x. upper_points c = [x]) cs p \<longleftrightarrow>
         map code (py_lower cs) = map lower_point p"
  using assms
proof (induction cs arbitrary: p)
  case Nil
  then show ?case by (auto simp: py_lower_def)
next
  case (Cons c cs)
  show ?case
  proof (cases p)
    case Nil
    then show ?thesis by (simp add: py_lower_def)
  next
    case (Cons x xs)
    with Cons.prems have x: "x \<in> title_points" and xs: "set xs \<subseteq> title_points"
      by simp_all
    from Cons.IH [OF xs] upper_points_title [OF x, of c] show ?thesis
      by (simp add: \<open>p = x # xs\<close> py_lower_def)
  qed
qed

lemma map_code_eq: "map code s = map code s' \<longleftrightarrow> s = s'"
proof -
  have "inj code"
    by (rule injI) (simp add: code_def)
  then show ?thesis by (simp add: inj_map_eq_map)
qed

lemma startswith_TITLE:
  "startswith (py_upper s) (map code ''TITLE:'') \<longleftrightarrow> py_lower (take 6 s) = ''title:''"
proof -
  have points: "map code ''TITLE:'' = [84, 73, 84, 76, 69, 58]"
    by (simp add: code_def)
  have sub: "set [84, 73, 84, 76, 69, 58 :: nat] \<subseteq> title_points"
    by (simp add: title_points_def)
  have low: "map lower_point [84, 73, 84, 76, 69, 58] = map code ''title:''"
    by (simp add: lower_point_def code_def)
  have len: "length [84, 73, 84, 76, 69, 58 :: nat] = 6"
    by simp
  have "startswith (py_upper s) [84, 73, 84, 76, 69, 58] \<longleftrightarrow>
        list_all2 (\<lambda>c x. upper_points c = [x]) (take 6 s) [84, 73, 84, 76, 69, 58]"
    using startswith_upper [OF sub, of s] unfolding len .
  also have "\<dots> \<longleftrightarrow> map code (py_lower (take 6 s)) = map code ''title:''"
    using list_all2_upper_lower [OF sub, of "take 6 s"] by (simp only: low)
  finally show ?thesis
    by (simp only: points map_code_eq)
qed

subsection \<open>The two loops\<close>

lemma title_loop_find:
  "title_loop ls =
     (case find (\<lambda>l. py_lower (take 6 (py_strip l)) = ''title:'') ls of
        Some l \<Rightarrow> Some (py_strip (drop 6 (py_strip l)))
      | None \<Rightarrow> None)"
proof (induction ls)
  case Nil
  then show ?case by simp
next
  case (Cons l ls)
  have "title_loop (l # ls) =
      (if py_lower (take 6 (py_strip l)) = ''title:'' then Some (py_strip (drop 6 (py_strip l)))
       else title_loop ls)"
    by (simp only: title_loop.simps Let_def startswith_TITLE)
  with Cons.IH show ?case by simp
qed

lemma fallback_loop_find:
  "fallback_loop ls =
     (case find (\<lambda>l. py_strip l \<noteq> []) ls of Some l \<Rightarrow> py_strip l | None \<Rightarrow> ''Unknown Title'')"
  by (induction ls) simp_all

lemma extract_title_refines: "extract_title text = extract_title_spec text"
  by (simp add: extract_title_def extract_title_spec_def title_loop_find fallback_loop_find
      split: option.splits)

lemma split_from_chars:
  "l \<in> set (split_from cur s) \<Longrightarrow> set l \<subseteq> set cur \<union> set s"
  by (induction cur s arbitrary: l rule: split_from.induct) (auto split: if_splits)

lemma py_strip_blank:
  assumes "list_all is_space l"
  shows "py_strip l = []"
proof -
  from assms have outer: "dropWhile is_space l = []"
    by (induction l) simp_all
  show ?thesis unfolding py_strip_def outer by simp
qed

lemma title_loop_blank: "list_all (\<lambda>l. py_strip l = []) ls \<Longrightarrow> title_loop ls = None"
  by (induction ls) (simp_all add: py_upper_def code_def)

lemma fallback_loop_blank:
  "list_all (\<lambda>l. py_strip l = []) ls \<Longrightarrow> fallback_loop ls = ''Unknown Title''"
  by (induction ls) simp_all

lemma extract_title_blank:
  assumes "list_all is_space text"
  shows "extract_title text = ''Unknown Title''"
proof -
  have "py_strip l = []" if "l \<in> set (splitlines text)" for l
  proof -
    from that have "set l \<subseteq> set text"
      using split_from_chars [of l "[]" "text"] by (simp add: splitlines_def)
    with assms have "list_all is_space l" by (auto simp: list_all_iff)
    then show ?thesis by (rule py_strip_blank)
  qed
  then have all: "list_all (\<lambda>l. py_strip l = []) (splitlines text)"
    by (simp add: list_all_iff)
  then have "list_all (\<lambda>l. py_strip l = []) (take 60 (splitlines text))"
    by (auto simp: list_all_iff dest: in_set_takeD)
  then show ?thesis
    using all by (simp add: extract_title_def title_loop_blank fallback_loop_blank)
qed

text \<open>
  C9. For every text, \<open>extract_title\<close> returns what the specification describes: the
  trimmed remainder after the six-character prefix of the first line, among the first 60,
  that after trimming starts with \<open>TITLE:\<close> in any case; else the first non-blank line,
  trimmed; else \<open>Unknown Title\<close>. A text of whitespace only gives \<open>Unknown Title\<close>, and
  the example of the specification gives \<open>Moby Dick\<close>. Two more runs: a title line in
  mixed case after a line that ends at NEL, and a prefix that starts only at the seventh
  line of 61, of which the first 60 are looked at.
\<close>

theorem extract_title_correct:
  "extract_title text = extract_title_spec text \<and>
   (list_all is_space text \<longrightarrow> extract_title text = ''Unknown Title'') \<and>
   extract_title ''Some preamble\<newline>TITLE: Moby Dick\<newline>more text'' = ''Moby Dick'' \<and>
   extract_title (''abc'' @ [CHR 0x85, CHR 0xA0] @ ''tItLe:  X y '' @ [CHR 0x0D, CHR 0x0A] @ ''z'') =
     ''X y'' \<and>
   extract_title (concat (replicate 60 ''a\<newline>'') @ ''Title: late'') = ''a''"
proof -
  have "extract_title ''Some preamble\<newline>TITLE: Moby Dick\<newline>more text'' = ''Moby Dick''"
    by code_simp
  moreover have
    "extract_title (''abc'' @ [CHR 0x85, CHR 0xA0] @ ''tItLe:  X y '' @ [CHR 0x0D, CHR 0x0A] @ ''z'') =
       ''X y''"
    by code_simp
  moreover have "extract_title (concat (replicate 60 ''a\<newline>'') @ ''Title: late'') = ''a''"
    by code_simp
  ultimately show ?thesis
    using extract_title_refines extract_title_blank by blast
qed

theorem extract_title_correct_witness:
  "list_all is_space ([CHR 0xA0, CHR 0x85] @ '' \<newline>  '') \<and>
   extract_title ([CHR 0xA0, CHR 0x85] @ '' \<newline>  '') = ''Unknown Title'' \<and>
   extract_title_spec ([CHR 0xA0, CHR 0x85] @ '' \<newline>  '') = ''Unknown Title''"
proof -
  have blank: "list_all is_space ([CHR 0xA0, CHR 0x85] @ '' \<newline>  '')" by code_simp
  show ?thesis
    using extract_title_correct [of "[CHR 0xA0, CHR 0x85] @ '' \<newline>  ''"] blank by metis
qed

section \<open>Properties of the catalog client\<close>

lemma prefer_txt_find:
  "prefer_txt fs =
     (case find (\<lambda>(label, loc). contains label ''text/plain'' \<and> endswith loc ''.txt'') fs of
        Some (label, loc) \<Rightarrow> Some loc | None \<Rightarrow> None)"
  by (induction fs rule: prefer_txt.induct) simp_all

lemma any_plain_find:
  "any_plain fs =
     (case find (\<lambda>(label, loc). contains label ''text/plain'') fs of
        Some (label, loc) \<Rightarrow> Some loc | None \<Rightarrow> None)"
  by (induction fs rule: any_plain.induct) simp_all

text \<open>
  C8. When the catalog answers, \<open>search_gutenberg_by_title\<close> looks at the formats of the
  first result only and returns the location of the first entry whose label contains
  \<open>text/plain\<close> and whose location ends in \<open>.txt\<close>, else that of the first entry whose
  label contains \<open>text/plain\<close>, else nothing; an empty or missing result list gives
  nothing.
\<close>

theorem search_selects_plain_text:
  assumes "title \<noteq> []" and "catalog w title = Inr data"
  shows "search_gutenberg_by_title w title =
           Inr (case results data of
                  Some (first_book # others) \<Rightarrow>
                    select_location_spec (case formats first_book of Some fs \<Rightarrow> fs | None \<Rightarrow> [])
                | Some [] \<Rightarrow> None
                | None \<Rightarrow> None)"
  using assms
  by (simp add: search_gutenberg_by_title_def select_location_spec_def prefer_txt_find
      any_plain_find Let_def split: option.splits list.splits)

theorem search_selects_plain_text_witness:
  "''cats'' \<noteq> [] \<and> catalog example_web ''cats'' = Inr example_catalog \<and>
   search_gutenberg_by_title example_web ''cats'' = Inr (Some ''http://g/1.txt'')"
proof -
  have t: "''cats'' \<noteq> []" by simp
  have c: "catalog example_web ''cats'' = Inr example_catalog"
    by (simp add: example_web_def)
  have sel: "(case results example_catalog of
                  Some (first_book # others) \<Rightarrow>
                    select_location_spec (case formats first_book of Some fs \<Rightarrow> fs | None \<Rightarrow> [])
                | Some [] \<Rightarrow> None
                | None \<Rightarrow> None) = Some ''http://g/1.txt''"
    by code_simp
  show ?thesis
    using search_selects_plain_text [OF t c] t c unfolding sel by simp
qed

section \<open>Properties of the store\<close>

subsection \<open>The upsert of the book row\<close>

lemma upsert_book_word_freqs:
  "word_freqs (upsert_book title url d) = word_freqs d \<and>
   word_freqs_seq (upsert_book title url d) = word_freqs_seq d"
  by (simp add: upsert_book_def Let_def)

lemma find_updated_title:
  "list_ex (\<lambda>(i, t, u). t = title) bs \<Longrightarrow>
   \<exists>book_id. find (\<lambda>(i, t, u). t = title)
       (map (\<lambda>(i, t, u). if t = title then (i, t, url) else (i, t, u)) bs) =
     Some (book_id, title, url)"
  by (induction bs) (auto split: if_splits)

lemma find_appended_title:
  "\<not> list_ex (\<lambda>(i, t, u). t = title) bs \<Longrightarrow>
   find (\<lambda>(i, t, u). t = title) (bs @ [(n, title, url)]) = Some (n, title, url)"
  by (induction bs) auto

lemma upsert_book_finds:
  "\<exists>book_id. find (\<lambda>(i, t, u). t = title) (books (upsert_book title url d)) =
     Some (book_id, title, url)"
  by (simp add: upsert_book_def Let_def find_updated_title find_appended_title)

lemma upsert_book_others:
  "filter (\<lambda>(i, t, u). t \<noteq> title) (books (upsert_book title url d)) =
   filter (\<lambda>(i, t, u). t \<noteq> title) (books d)"
proof -
  have "filter (\<lambda>(i, t, u). t \<noteq> title)
          (map (\<lambda>(i, t, u). if t = title then (i, t, url) else (i, t, u)) bs) =
        filter (\<lambda>(i, t, u). t \<noteq> title) bs" for bs :: "book_row list"
    by (induction bs) auto
  then show ?thesis
    by (simp add: upsert_book_def Let_def)
qed

subsection \<open>The frequency rows\<close>

lemma insert_word_freqs_books:
  "insert_word_freqs book_id wfs d = Inr d' \<Longrightarrow>
   books d' = books d \<and> books_seq d' = books_seq d"
proof (induction wfs arbitrary: d)
  case Nil
  then show ?case by simp
next
  case (Cons p wfs)
  obtain wd f where p: "p = (wd, f)" by (cases p) auto
  from Cons.prems p show ?case
    by (auto simp: Let_def split: if_splits dest!: Cons.IH)
qed

text \<open>
  The INSERTs go through exactly when every frequency fits 64 bits, no word is supplied
  twice, and no supplied word is already stored for the book.
\<close>

lemma insert_word_freqs_succeeds:
  "(\<exists>d'. insert_word_freqs book_id wfs d = Inr d') \<longleftrightarrow>
   list_all (\<lambda>(wd, f). - (2 ^ 63) \<le> f \<and> f \<le> 2 ^ 63 - 1) wfs \<and>
   distinct (map fst wfs) \<and>
   (\<forall>wd \<in> fst ` set wfs. \<not> list_ex (\<lambda>(i, b, wd', f). b = book_id \<and> wd' = wd) (word_freqs d))"
proof (induction wfs arbitrary: d)
  case Nil
  then show ?case by simp
next
  case (Cons p wfs)
  obtain wd f where p: "p = (wd, f)" by (cases p) auto
  show ?case unfolding p
    by (simp add: Cons.IH list_ex_iff Let_def) (auto simp: rev_image_eqI)
qed

lemma insort_key_map_commute:
  "map g (insort_key (\<lambda>x. k (g x)) x ys) = insort_key k (g x) (map g ys)"
  by (induction ys) simp_all

lemma sort_key_map_commute:
  "map g (sort_key (\<lambda>x. k (g x)) xs) = sort_key k (map g xs)"
  by (induction xs) (simp_all add: insort_key_map_commute)

lemma get_word_frequencies_stored_rows:
  "get_word_frequencies book_id d = sort_key (\<lambda>(wd, f). (- f, wd)) (stored_rows book_id d)"
proof -
  have key: "(\<lambda>(i, b, wd, f). (- f, wd)) =
      (\<lambda>x :: word_freq_row. (\<lambda>(wd, f). (- f, wd)) ((\<lambda>(i, b, wd, f). (wd, f)) x))"
    by (auto simp: fun_eq_iff)
  show ?thesis
    unfolding get_word_frequencies_def stored_rows_def
    by (subst key) (rule sort_key_map_commute)
qed

lemma insert_word_freqs_stored_rows:
  "insert_word_freqs book_id wfs d = Inr d' \<Longrightarrow>
   stored_rows b d' = stored_rows b d @ (if b = book_id then wfs else [])"
proof (induction wfs arbitrary: d)
  case Nil
  then show ?case by simp
next
  case (Cons p wfs)
  obtain wd f where p: "p = (wd, f)" by (cases p) auto
  from Cons.prems p show ?case
    by (auto simp: Let_def split: if_splits dest!: Cons.IH simp: stored_rows_def)
qed

lemma stored_rows_deleted:
  "stored_rows b (d\<lparr>word_freqs := filter (\<lambda>(i, b', wd, f). b' \<noteq> book_id) (word_freqs d)\<rparr>) =
     (if b = book_id then [] else stored_rows b d)"
proof -
  have "filter (\<lambda>(i, b', wd, f). b' = b) (filter (\<lambda>(i, b', wd, f). b' \<noteq> book_id) rows) =
      (if b = book_id then [] else filter (\<lambda>(i, b', wd, f). b' = b) rows)"
    for rows :: "word_freq_row list"
    by (induction rows) (auto simp: case_prod_unfold)
  then show ?thesis by (simp add: stored_rows_def)
qed

subsection \<open>The whole call\<close>

lemma insert_or_update_book_steps:
  obtains book_id where
    "find (\<lambda>(i, t, u). t = title) (books (upsert_book title url d)) = Some (book_id, title, url)"
    and "insert_or_update_book title url wfs d =
      (case insert_word_freqs book_id wfs
              ((upsert_book title url d)
                 \<lparr>word_freqs := filter (\<lambda>(i, b, wd, f). b \<noteq> book_id)
                                  (word_freqs (upsert_book title url d))\<rparr>) of
         Inl e \<Rightarrow> (Inl e, upsert_book title url d)
       | Inr d3 \<Rightarrow> (Inr (), d3))"
proof -
  obtain book_id where found:
    "find (\<lambda>(i, t, u). t = title) (books (upsert_book title url d)) = Some (book_id, title, url)"
    using upsert_book_finds [of title url d] by auto
  then have "insert_or_update_book title url wfs d =
      (case insert_word_freqs book_id wfs
              ((upsert_book title url d)
                 \<lparr>word_freqs := filter (\<lambda>(i, b, wd, f). b \<noteq> book_id)
                                  (word_freqs (upsert_book title url d))\<rparr>) of
         Inl e \<Rightarrow> (Inl e, upsert_book title url d)
       | Inr d3 \<Rightarrow> (Inr (), d3))"
    unfolding insert_or_update_book_def Let_def by simp
  with found show ?thesis by (rule that)
qed

lemma insert_or_update_book_stored:
  assumes "insert_or_update_book title url wfs d = (r, d')"
  shows "books d' = books (upsert_book title url d) \<and>
         (\<exists>book_id. find (\<lambda>(i, t, u). t = title) (books d') = Some (book_id, title, url) \<and>
            (case r of
               Inl e \<Rightarrow> word_freqs d' = word_freqs d \<and> word_freqs_seq d' = word_freqs_seq d
             | Inr u \<Rightarrow> (\<forall>b. stored_rows b d' = (if b = book_id then wfs else stored_rows b d))))"
proof -
  define d1 where "d1 = upsert_book title url d"
  obtain book_id where found:
      "find (\<lambda>(i, t, u). t = title) (books d1) = Some (book_id, title, url)"
    and call: "insert_or_update_book title url wfs d =
      (case insert_word_freqs book_id wfs
              (d1\<lparr>word_freqs := filter (\<lambda>(i, b, wd, f). b \<noteq> book_id) (word_freqs d1)\<rparr>) of
         Inl e \<Rightarrow> (Inl e, d1)
       | Inr d3 \<Rightarrow> (Inr (), d3))"
    unfolding d1_def by (rule insert_or_update_book_steps)
  define d2 where
    "d2 = d1\<lparr>word_freqs := filter (\<lambda>(i, b, wd, f). b \<noteq> book_id) (word_freqs d1)\<rparr>"
  have before: "stored_rows b d2 = (if b = book_id then [] else stored_rows b d)" for b
    unfolding d2_def stored_rows_deleted by (simp add: stored_rows_def d1_def upsert_book_word_freqs)
  show ?thesis
  proof (cases "insert_word_freqs book_id wfs d2")
    case (Inl e)
    with call assms have r: "r = Inl e" and d': "d' = d1" by (simp_all add: d2_def)
    with found show ?thesis
      by (auto simp: d1_def upsert_book_word_freqs)
  next
    case (Inr d3)
    with call assms have r: "r = Inr ()" and d': "d' = d3" by (simp_all add: d2_def)
    from insert_word_freqs_books [OF Inr] have bk: "books d3 = books d1"
      by (simp add: d2_def)
    have "stored_rows b d3 = (if b = book_id then wfs else stored_rows b d)" for b
      using insert_word_freqs_stored_rows [OF Inr, of b] by (simp add: before)
    with r d' found bk show ?thesis
      by (auto simp: d1_def)
  qed
qed

text \<open>
  The call returns normally exactly when every frequency fits 64 bits and no word is
  supplied twice.
\<close>

lemma insert_or_update_book_returns:
  "fst (insert_or_update_book title url wfs d) = Inr () \<longleftrightarrow>
   list_all (\<lambda>(wd, f). - (2 ^ 63) \<le> f \<and> f \<le> 2 ^ 63 - 1) wfs \<and> distinct (map fst wfs)"
proof -
  define d1 where "d1 = upsert_book title url d"
  obtain book_id where call: "insert_or_update_book title url wfs d =
      (case insert_word_freqs book_id wfs
              (d1\<lparr>word_freqs := filter (\<lambda>(i, b, wd, f). b \<noteq> book_id) (word_freqs d1)\<rparr>) of
         Inl e \<Rightarrow> (Inl e, d1)
       | Inr d3 \<Rightarrow> (Inr (), d3))"
    unfolding d1_def by (rule insert_or_update_book_steps)
  define d2 where
    "d2 = d1\<lparr>word_freqs := filter (\<lambda>(i, b, wd, f). b \<noteq> book_id) (word_freqs d1)\<rparr>"
  have clean: "\<forall>wd \<in> fst ` set wfs.
      \<not> list_ex (\<lambda>(i, b, wd', f). b = book_id \<and> wd' = wd) (word_freqs d2)"
    by (auto simp: d2_def list_ex_iff)
  have "fst (insert_or_update_book title url wfs d) = Inr () \<longleftrightarrow>
      (\<exists>d3. insert_word_freqs book_id wfs d2 = Inr d3)"
    unfolding call d2_def [symmetric] by (cases "insert_word_freqs book_id wfs d2") simp_all
  also have "\<dots> \<longleftrightarrow>
      list_all (\<lambda>(wd, f). - (2 ^ 63) \<le> f \<and> f \<le> 2 ^ 63 - 1) wfs \<and> distinct (map fst wfs)"
    using insert_word_freqs_succeeds [of book_id wfs d2] clean by blast
  finally show ?thesis .
qed

text \<open>
  C2, as the code has it. \<open>insert_or_update_book\<close> runs two transactions. The write of
  the book row is committed first and stays whatever happens next: the store that the call
  leaves has the book under its title with the new location, and the rows of the books
  with other titles as they were. The replacement of the book's frequency rows is a second
  transaction that is atomic on its own: when the call returns, the book's rows are
  exactly the supplied ones and the rows of other books are untouched; when it raises, the
  table of frequency rows is the one from before the call.
\<close>

theorem book_committed_frequencies_all_or_nothing:
  assumes "insert_or_update_book title url wfs d = (r, d')"
  shows "(\<exists>book_id. find (\<lambda>(i, t, u). t = title) (books d') = Some (book_id, title, url) \<and>
            (case r of
               Inl e \<Rightarrow> word_freqs d' = word_freqs d \<and> word_freqs_seq d' = word_freqs_seq d
             | Inr u \<Rightarrow> (\<forall>b. stored_rows b d' = (if b = book_id then wfs else stored_rows b d)))) \<and>
         filter (\<lambda>(i, t, u). t \<noteq> title) (books d') = filter (\<lambda>(i, t, u). t \<noteq> title) (books d)"
proof -
  from insert_or_update_book_stored [OF assms]
  have bk: "books d' = books (upsert_book title url d)"
    and found: "\<exists>book_id. find (\<lambda>(i, t, u). t = title) (books d') = Some (book_id, title, url) \<and>
      (case r of
         Inl e \<Rightarrow> word_freqs d' = word_freqs d \<and> word_freqs_seq d' = word_freqs_seq d
       | Inr u \<Rightarrow> (\<forall>b. stored_rows b d' = (if b = book_id then wfs else stored_rows b d)))"
    by blast+
  have "filter (\<lambda>(i, t, u). t \<noteq> title) (books d') = filter (\<lambda>(i, t, u). t \<noteq> title) (books d)"
    unfolding bk by (rule upsert_book_others)
  with found show ?thesis by blast
qed

theorem book_committed_frequencies_all_or_nothing_witness:
  "insert_or_update_book ''Moby Dick'' ''http://g/2.txt'' [(''sea'', 2)] moby_db =
     (Inr (),
      \<lparr>books = [(1, ''Moby Dick'', ''http://g/2.txt'')], books_seq = 2,
       word_freqs = [(2, 1, ''sea'', 2)], word_freqs_seq = 2\<rparr>) \<and>
   stored_rows 1 moby_db = [(''whale'', 3)] \<and>
   stored_rows 1
     \<lparr>books = [(1, ''Moby Dick'', ''http://g/2.txt'')], books_seq = 2,
      word_freqs = [(2, 1, ''sea'', 2)], word_freqs_seq = 2\<rparr> = [(''sea'', 2)]"
proof -
  have run: "insert_or_update_book ''Moby Dick'' ''http://g/2.txt'' [(''sea'', 2)] moby_db =
     (Inr (),
      \<lparr>books = [(1, ''Moby Dick'', ''http://g/2.txt'')], books_seq = 2,
       word_freqs = [(2, 1, ''sea'', 2)], word_freqs_seq = 2\<rparr>)"
    unfolding moby_db_def by code_simp
  have old: "stored_rows 1 moby_db = [(''whale'', 3)]"
    unfolding moby_db_def by code_simp
  from book_committed_frequencies_all_or_nothing [OF run]
  have "stored_rows 1
     \<lparr>books = [(1, ''Moby Dick'', ''http://g/2.txt'')], books_seq = 2,
      word_freqs = [(2, 1, ''sea'', 2)], word_freqs_seq = 2\<rparr> = [(''sea'', 2)]"
    by auto
  with run old show ?thesis by simp
qed

text \<open>
  C2, as the specification states it, fails: a call that raises part-way (here on a word
  supplied twice) has already committed the book row, so the store is left with the
  updated book (the new location) and the frequency rows of the previous analysis.
\<close>

theorem failed_call_keeps_new_book_with_old_rows:
  "moby_db =
     \<lparr>books = [(1, ''Moby Dick'', ''http://g/1.txt'')], books_seq = 1,
      word_freqs = [(1, 1, ''whale'', 3)], word_freqs_seq = 1\<rparr> \<and>
   insert_or_update_book ''Moby Dick'' ''http://g/2.txt'' [(''sea'', 2), (''sea'', 1)] moby_db =
     (Inl IntegrityError,
      \<lparr>books = [(1, ''Moby Dick'', ''http://g/2.txt'')], books_seq = 2,
       word_freqs = [(1, 1, ''whale'', 3)], word_freqs_seq = 1\<rparr>)"
  unfolding moby_db_def by code_simp

text \<open>The same with a frequency that does not fit 64 bits.\<close>

lemma overflowing_call_keeps_new_book_with_old_rows:
  "insert_or_update_book ''Moby Dick'' ''http://g/2.txt'' [(''sea'', 2), (''air'', 2 ^ 63)] moby_db =
     (Inl OverflowError,
      \<lparr>books = [(1, ''Moby Dick'', ''http://g/2.txt'')], books_seq = 2,
       word_freqs = [(1, 1, ''whale'', 3)], word_freqs_seq = 1\<rparr>)"
  unfolding moby_db_def by code_simp

subsection \<open>Titles\<close>

lemma upsert_book_exact_titles:
  "titles (upsert_book title url d) =
     (if title \<in> set (titles d) then titles d else titles d @ [title])"
proof -
  have ex: "list_ex (\<lambda>(i, t, u). t = title) (books d) \<longleftrightarrow> title \<in> set (titles d)"
    by (force simp: titles_def list_ex_iff)
  show ?thesis
    unfolding upsert_book_def Let_def ex by (auto simp: titles_def split: prod.splits)
qed

lemma insert_or_update_book_books:
  "books (snd (insert_or_update_book title url wfs d)) = books (upsert_book title url d)"
  using insert_or_update_book_stored [of title url wfs d] by (cases "insert_or_update_book title url wfs d") simp

lemma store_all_exact_titles:
  "distinct (titles d) \<Longrightarrow> distinct (titles (store_all calls d))"
proof (induction calls arbitrary: d)
  case Nil
  then show ?case by simp
next
  case (Cons call calls)
  obtain title url wfs where call: "call = (title, url, wfs)"
    by (cases call) auto
  have "titles (snd (insert_or_update_book title url wfs d)) = titles (upsert_book title url d)"
    by (simp add: titles_def insert_or_update_book_books)
  with Cons.prems have "distinct (titles (snd (insert_or_update_book title url wfs d)))"
    by (simp add: upsert_book_exact_titles)
  then show ?case
    unfolding call by (simp add: Cons.IH)
qed

lemma store_all_from_empty: "distinct (titles (store_all calls (init_db None)))"
  by (rule store_all_exact_titles) (simp add: init_db_def titles_def)

text \<open>
  C4. The store does not keep one book per title up to case: \<open>UNIQUE(title)\<close> and
  \<open>ON CONFLICT(title)\<close> compare titles exactly, so storing \<open>MOBY DICK\<close> next to
  \<open>Moby Dick\<close> adds a second row, while the lookup, which folds case, keeps answering
  with the first one and its frequencies, also when asked for \<open>MOBY DICK\<close>.
\<close>

theorem titles_differing_in_case_stored_twice:
  "sql_lower ''MOBY DICK'' = sql_lower ''Moby Dick'' \<and>
   insert_or_update_book ''MOBY DICK'' ''http://g/2.txt'' [(''sea'', 2)] moby_db =
     (Inr (),
      \<lparr>books = [(1, ''Moby Dick'', ''http://g/1.txt''), (2, ''MOBY DICK'', ''http://g/2.txt'')],
       books_seq = 2,
       word_freqs = [(1, 1, ''whale'', 3), (2, 2, ''sea'', 2)], word_freqs_seq = 2\<rparr>) \<and>
   get_book_by_title ''MOBY DICK''
     (snd (insert_or_update_book ''MOBY DICK'' ''http://g/2.txt'' [(''sea'', 2)] moby_db)) =
     Some (1, ''Moby Dick'', ''http://g/1.txt'') \<and>
   get_word_frequencies 1
     (snd (insert_or_update_book ''MOBY DICK'' ''http://g/2.txt'' [(''sea'', 2)] moby_db)) =
     [(''whale'', 3)]"
  unfolding moby_db_def by code_simp

section \<open>Properties of the lookup by title\<close>

lemma report_not_Loaded: "report e \<noteq> Loaded st rows"
  by (simp add: report_def)

lemma from_web_not_Loaded: "fst (from_web w title d) \<noteq> Loaded st rows"
  by (auto simp: from_web_def Let_def report_not_Loaded split: sum.splits option.splits prod.splits)

lemma get_word_frequencies_empty:
  "get_word_frequencies book_id d \<noteq> [] \<longleftrightarrow> list_ex (\<lambda>(i, b, wd, f). b = book_id) (word_freqs d)"
proof -
  have "get_word_frequencies book_id d = [] \<longleftrightarrow>
        filter (\<lambda>(i, b, wd, f). b = book_id) (word_freqs d) = []"
    unfolding get_word_frequencies_def
    by (metis (no_types, lifting) length_0_conv length_map length_sort)
  then show ?thesis
    by (auto simp: filter_empty_conv list_ex_iff)
qed

text \<open>
  C5. For a non-empty title, \<open>on_search_title\<close> answers from the store exactly when the
  title finds a book and that book has at least one row in \<open>word_freqs\<close>. A book without
  rows is a miss, and the call then goes on: it resolves the title (a failure or no
  location ends it there), fetches the text (a failure ends it there), analyzes it, and
  stores title, location and top words with \<open>insert_or_update_book\<close>, leaving the store
  that this call leaves and showing the freshly computed words.
\<close>

theorem cache_hit_needs_rows:
  assumes "py_strip entry \<noteq> []"
  shows "((\<exists>stored rows. fst (on_search_title w entry d) = Loaded stored rows) \<longleftrightarrow>
          (\<exists>book_id stored url.
              get_book_by_title (py_strip entry) d = Some (book_id, stored, url) \<and>
              list_ex (\<lambda>(i, b, wd, f). b = book_id) (word_freqs d))) \<and>
         (\<forall>book_id stored url.
            get_book_by_title (py_strip entry) d = Some (book_id, stored, url) \<and>
            \<not> list_ex (\<lambda>(i, b, wd, f). b = book_id) (word_freqs d) \<longrightarrow>
            on_search_title w entry d =
              (case search_gutenberg_by_title w (py_strip entry) of
                 Inl e \<Rightarrow> (report e, d)
               | Inr None \<Rightarrow> (BookNotFound, d)
               | Inr (Some loc) \<Rightarrow>
                   if loc = [] then (BookNotFound, d)
                   else (case fetch_book_text w loc of
                           Inl e \<Rightarrow> (report e, d)
                         | Inr body \<Rightarrow>
                             (case insert_or_update_book (extract_title body) loc
                                     (compute_top_words body 10) d of
                                (Inl e, d') \<Rightarrow> (report e, d')
                              | (Inr u, d') \<Rightarrow>
                                  (Retrieved (extract_title body) (compute_top_words body 10),
                                   d')))))"
proof -
  have web: "from_web w (py_strip entry) d =
      (case search_gutenberg_by_title w (py_strip entry) of
         Inl e \<Rightarrow> (report e, d)
       | Inr None \<Rightarrow> (BookNotFound, d)
       | Inr (Some loc) \<Rightarrow>
           if loc = [] then (BookNotFound, d)
           else (case fetch_book_text w loc of
                   Inl e \<Rightarrow> (report e, d)
                 | Inr body \<Rightarrow>
                     (case insert_or_update_book (extract_title body) loc
                             (compute_top_words body 10) d of
                        (Inl e, d') \<Rightarrow> (report e, d')
                      | (Inr u, d') \<Rightarrow>
                          (Retrieved (extract_title body) (compute_top_words body 10), d'))))"
    unfolding from_web_def Let_def by (rule refl)
  show ?thesis
  proof (cases "get_book_by_title (py_strip entry) d")
    case None
    with assms have "on_search_title w entry d = from_web w (py_strip entry) d"
      by (simp add: on_search_title_def)
    with None show ?thesis by (simp add: from_web_not_Loaded)
  next
    case (Some row)
    obtain book_id stored url where row: "row = (book_id, stored, url)"
      by (cases row) auto
    show ?thesis
    proof (cases "list_ex (\<lambda>(i, b, wd, f). b = book_id) (word_freqs d)")
      case True
      then have "get_word_frequencies book_id d \<noteq> []"
        by (simp add: get_word_frequencies_empty)
      with assms Some row have
        "on_search_title w entry d = (Loaded stored (take 10 (get_word_frequencies book_id d)), d)"
        by (simp add: on_search_title_def)
      with Some row True show ?thesis by simp
    next
      case False
      then have "get_word_frequencies book_id d = []"
        using get_word_frequencies_empty [of book_id d] by simp
      with assms Some row have call: "on_search_title w entry d = from_web w (py_strip entry) d"
        by (simp add: on_search_title_def)
      have "\<not> (\<exists>stored rows. fst (on_search_title w entry d) = Loaded stored rows)"
        unfolding call by (simp add: from_web_not_Loaded)
      moreover have "on_search_title w entry d =
        (case search_gutenberg_by_title w (py_strip entry) of
           Inl e \<Rightarrow> (report e, d)
         | Inr None \<Rightarrow> (BookNotFound, d)
         | Inr (Some loc) \<Rightarrow>
             if loc = [] then (BookNotFound, d)
             else (case fetch_book_text w loc of
                     Inl e \<Rightarrow> (report e, d)
                   | Inr body \<Rightarrow>
                       (case insert_or_update_book (extract_title body) loc
                               (compute_top_words body 10) d of
                          (Inl e, d') \<Rightarrow> (report e, d')
                        | (Inr u, d') \<Rightarrow>
                            (Retrieved (extract_title body) (compute_top_words body 10), d'))))"
        unfolding call by (rule web)
      ultimately show ?thesis
        using Some row False by simp
    qed
  qed
qed

theorem cache_hit_needs_rows_witness:
  "py_strip ''cats'' \<noteq> [] \<and>
   get_book_by_title (py_strip ''cats'') empty_entry_db = Some (1, ''Cats'', ''http://g/0.txt'') \<and>
   \<not> list_ex (\<lambda>(i, b, wd, f). b = 1) (word_freqs empty_entry_db) \<and>
   search_gutenberg_by_title example_web (py_strip ''cats'') = Inr (Some ''http://g/1.txt'') \<and>
   fetch_book_text example_web ''http://g/1.txt'' =
     Inr ''Title: Cats\<newline>The cat sat on the mat. The Cat ran.'' \<and>
   on_search_title example_web ''cats'' empty_entry_db =
     (Retrieved ''Cats''
        [(''cat'', 2), (''title'', 1), (''cats'', 1), (''sat'', 1), (''mat'', 1), (''ran'', 1)],
      \<lparr>books = [(1, ''Cats'', ''http://g/1.txt'')], books_seq = 2,
       word_freqs =
         [(1, 1, ''cat'', 2), (2, 1, ''title'', 1), (3, 1, ''cats'', 1), (4, 1, ''sat'', 1),
          (5, 1, ''mat'', 1), (6, 1, ''ran'', 1)],
       word_freqs_seq = 6\<rparr>)"
proof -
  have t: "py_strip ''cats'' \<noteq> []" by code_simp
  have b: "get_book_by_title (py_strip ''cats'') empty_entry_db =
      Some (1, ''Cats'', ''http://g/0.txt'')"
    unfolding empty_entry_db_def by code_simp
  have r: "\<not> list_ex (\<lambda>(i, b, wd, f). b = 1) (word_freqs empty_entry_db)"
    unfolding empty_entry_db_def by code_simp
  have s: "search_gutenberg_by_title example_web (py_strip ''cats'') =
      Inr (Some ''http://g/1.txt'')"
    unfolding example_web_def example_catalog_def by code_simp
  have f: "fetch_book_text example_web ''http://g/1.txt'' =
      Inr ''Title: Cats\<newline>The cat sat on the mat. The Cat ran.''"
    by (simp add: fetch_book_text_def example_web_def)
  have a: "extract_title ''Title: Cats\<newline>The cat sat on the mat. The Cat ran.'' = ''Cats''"
    by code_simp
  have c: "compute_top_words ''Title: Cats\<newline>The cat sat on the mat. The Cat ran.'' 10 =
      [(''cat'', 2), (''title'', 1), (''cats'', 1), (''sat'', 1), (''mat'', 1), (''ran'', 1)]"
    by code_simp
  have i: "insert_or_update_book ''Cats'' ''http://g/1.txt''
      [(''cat'', 2), (''title'', 1), (''cats'', 1), (''sat'', 1), (''mat'', 1), (''ran'', 1)]
      empty_entry_db =
     (Inr (),
      \<lparr>books = [(1, ''Cats'', ''http://g/1.txt'')], books_seq = 2,
       word_freqs =
         [(1, 1, ''cat'', 2), (2, 1, ''title'', 1), (3, 1, ''cats'', 1), (4, 1, ''sat'', 1),
          (5, 1, ''mat'', 1), (6, 1, ''ran'', 1)],
       word_freqs_seq = 6\<rparr>)"
    unfolding empty_entry_db_def by code_simp
  from cache_hit_needs_rows [OF t, of example_web empty_entry_db] b r
  have "on_search_title example_web ''cats'' empty_entry_db =
      (case search_gutenberg_by_title example_web (py_strip ''cats'') of
         Inl e \<Rightarrow> (report e, empty_entry_db)
       | Inr None \<Rightarrow> (BookNotFound, empty_entry_db)
       | Inr (Some loc) \<Rightarrow>
           if loc = [] then (BookNotFound, empty_entry_db)
           else (case fetch_book_text example_web loc of
                   Inl e \<Rightarrow> (report e, empty_entry_db)
                 | Inr body \<Rightarrow>
                     (case insert_or_update_book (extract_title body) loc
                             (compute_top_words body 10) empty_entry_db of
                        (Inl e, d') \<Rightarrow> (report e, d')
                      | (Inr u, d') \<Rightarrow>
                          (Retrieved (extract_title body) (compute_top_words body 10), d'))))"
    by blast
  then have "on_search_title example_web ''cats'' empty_entry_db =
     (Retrieved ''Cats''
        [(''cat'', 2), (''title'', 1), (''cats'', 1), (''sat'', 1), (''mat'', 1), (''ran'', 1)],
      \<lparr>books = [(1, ''Cats'', ''http://g/1.txt'')], books_seq = 2,
       word_freqs =
         [(1, 1, ''cat'', 2), (2, 1, ''title'', 1), (3, 1, ''cats'', 1), (4, 1, ''sat'', 1),
          (5, 1, ''mat'', 1), (6, 1, ''ran'', 1)],
       word_freqs_seq = 6\<rparr>)"
    by (simp only: s f a c i sum.case option.case prod.case list.simps if_False)
  with t b r s f show ?thesis by blast
qed

lemma from_web_stops_early:
  assumes "search_gutenberg_by_title w title = Inr None \<or>
           search_gutenberg_by_title w title = Inr (Some []) \<or>
           (\<exists>e. search_gutenberg_by_title w title = Inl e) \<or>
           (\<exists>loc e. search_gutenberg_by_title w title = Inr (Some loc) \<and>
                    fetch_book_text w loc = Inl e)"
  shows "snd (from_web w title d) = d"
  using assms by (auto simp: from_web_def)

lemma from_web_stores:
  assumes "search_gutenberg_by_title w title = Inr (Some loc)" and "loc \<noteq> []"
    and "fetch_book_text w loc = Inr body"
  shows "snd (from_web w title d) =
         snd (insert_or_update_book (extract_title body) loc (compute_top_words body 10) d)"
  using assms by (simp add: from_web_def Let_def split: prod.splits sum.splits)

lemma on_search_title_cases:
  "on_search_title w entry d = from_web w (py_strip entry) d \<or>
   snd (on_search_title w entry d) = d"
  by (simp add: on_search_title_def Let_def split: option.splits prod.splits)

text \<open>
  C6. When \<open>on_search_title\<close> ends before the analysis (empty title, answer from the
  store, no location found, the search fails, or the download fails), the store it leaves
  is the store it was given.
\<close>

theorem no_store_write_before_analysis:
  assumes "py_strip entry = [] \<or>
           (\<exists>stored rows. fst (on_search_title w entry d) = Loaded stored rows) \<or>
           search_gutenberg_by_title w (py_strip entry) = Inr None \<or>
           search_gutenberg_by_title w (py_strip entry) = Inr (Some []) \<or>
           (\<exists>e. search_gutenberg_by_title w (py_strip entry) = Inl e) \<or>
           (\<exists>loc e. search_gutenberg_by_title w (py_strip entry) = Inr (Some loc) \<and>
                    fetch_book_text w loc = Inl e)"
  shows "snd (on_search_title w entry d) = d"
proof -
  consider (web) "on_search_title w entry d = from_web w (py_strip entry) d"
    | (local) "snd (on_search_title w entry d) = d"
    using on_search_title_cases [of w entry d] by blast
  then show ?thesis
  proof cases
    case web
    from assms consider "py_strip entry = []"
      | "\<exists>stored rows. fst (on_search_title w entry d) = Loaded stored rows"
      | "search_gutenberg_by_title w (py_strip entry) = Inr None \<or>
         search_gutenberg_by_title w (py_strip entry) = Inr (Some []) \<or>
         (\<exists>e. search_gutenberg_by_title w (py_strip entry) = Inl e) \<or>
         (\<exists>loc e. search_gutenberg_by_title w (py_strip entry) = Inr (Some loc) \<and>
                  fetch_book_text w loc = Inl e)"
      by blast
    then show ?thesis
    proof cases
      case 1
      then show ?thesis by (simp add: on_search_title_def)
    next
      case 2
      with web show ?thesis by (simp add: from_web_not_Loaded)
    next
      case 3
      then show ?thesis unfolding web by (rule from_web_stops_early)
    qed
  next
    case local
    then show ?thesis .
  qed
qed

theorem no_store_write_before_analysis_witness:
  "search_gutenberg_by_title offline_web (py_strip ''cats'') = Inr (Some ''http://g/1.txt'') \<and>
   fetch_book_text offline_web ''http://g/1.txt'' = Inl RequestException \<and>
   get_book_by_title ''cats'' empty_entry_db = Some (1, ''Cats'', ''http://g/0.txt'') \<and>
   fst (on_search_title offline_web ''cats'' empty_entry_db) = NetworkError \<and>
   snd (on_search_title offline_web ''cats'' empty_entry_db) = empty_entry_db"
proof -
  have s: "search_gutenberg_by_title offline_web (py_strip ''cats'') = Inr (Some ''http://g/1.txt'')"
    unfolding offline_web_def example_catalog_def by code_simp
  have f: "fetch_book_text offline_web ''http://g/1.txt'' = Inl RequestException"
    by (simp add: fetch_book_text_def offline_web_def)
  have b: "get_book_by_title ''cats'' empty_entry_db = Some (1, ''Cats'', ''http://g/0.txt'')"
    unfolding empty_entry_db_def by code_simp
  have o: "fst (on_search_title offline_web ''cats'' empty_entry_db) = NetworkError"
    unfolding empty_entry_db_def offline_web_def example_catalog_def by code_simp
  from s f have "\<exists>loc e. search_gutenberg_by_title offline_web (py_strip ''cats'') = Inr (Some loc) \<and>
      fetch_book_text offline_web loc = Inl e"
    by blast
  then have "snd (on_search_title offline_web ''cats'' empty_entry_db) = empty_entry_db"
    using no_store_write_before_analysis [of "''cats''" offline_web empty_entry_db] by blast
  with s f b o show ?thesis by blast
qed

lemma sort_key_Nil_iff: "sort_key f xs = [] \<longleftrightarrow> xs = []"
  by (metis length_0_conv length_sort)

lemma from_web_neq_Loaded: "from_web w title d \<noteq> (Loaded st rows, d')"
  using from_web_not_Loaded [of w title d st rows] by (metis fst_conv)

lemma report_not_Retrieved: "report e \<noteq> Retrieved t rows"
  by (simp add: report_def)

lemma from_web_Retrieved:
  assumes "from_web w title d = (Retrieved bt tw, d1)"
  shows "\<exists>loc body. tw = compute_top_words body 10 \<and>
           insert_or_update_book bt loc tw d = (Inr (), d1)"
  using assms
  by (auto simp: from_web_def Let_def report_not_Retrieved
      split: sum.splits option.splits if_splits prod.splits)

lemma on_search_title_Retrieved:
  assumes "on_search_title w entry d = (Retrieved bt tw, d1)"
  shows "from_web w (py_strip entry) d = (Retrieved bt tw, d1) \<and>
         (case get_book_by_title (py_strip entry) d of
            None \<Rightarrow> True
          | Some (book_id, st, u) \<Rightarrow> stored_rows book_id d = [])"
  using assms
  by (auto simp: on_search_title_def Let_def get_word_frequencies_stored_rows sort_key_Nil_iff
      split: option.splits if_splits prod.splits)

lemma on_search_title_Loaded:
  assumes "on_search_title w entry d = (Loaded st rows, d')"
  shows "d' = d \<and>
         (\<exists>book_id u. get_book_by_title (py_strip entry) d = Some (book_id, st, u) \<and>
            rows = take 10 (get_word_frequencies book_id d) \<and> stored_rows book_id d \<noteq> [])"
  using assms
  by (auto simp: on_search_title_def Let_def get_word_frequencies_stored_rows sort_key_Nil_iff
      from_web_neq_Loaded split: option.splits if_splits prod.splits)

lemma find_after_update:
  "find (\<lambda>(i, t, u). P t) (map (\<lambda>(i, t, u). if t = title then (i, t, url) else (i, t, u)) bs) =
     map_option (\<lambda>(i, t, u). if t = title then (i, t, url) else (i, t, u))
       (find (\<lambda>(i, t, u). P t) bs)"
proof (induction bs)
  case Nil
  then show ?case by simp
next
  case (Cons row bs)
  obtain i t u where row: "row = (i, t, u)" by (cases row) auto
  show ?case
    unfolding row using Cons.IH by (cases "P t"; cases "t = title") simp_all
qed

lemma find_after_append:
  "find P (bs @ [x]) = (case find P bs of Some y \<Rightarrow> Some y | None \<Rightarrow> if P x then Some x else None)"
  by (induction bs) auto

text \<open>The book that a lookup finds after an upsert: the one it found before, or the new row.\<close>

lemma get_book_by_title_after_upsert:
  assumes "get_book_by_title q (upsert_book title url d) = Some (book_id, st, u)"
  shows "(\<exists>st' u'. get_book_by_title q d = Some (book_id, st', u')) \<or>
         (get_book_by_title q d = None \<and>
          find (\<lambda>(i, t, u). t = title) (books (upsert_book title url d)) = Some (book_id, title, url))"
proof (cases "list_ex (\<lambda>(i, t, u). t = title) (books d)")
  case True
  then have "get_book_by_title q (upsert_book title url d) =
      map_option (\<lambda>(i, t, u). if t = title then (i, t, url) else (i, t, u))
        (get_book_by_title q d)"
    using find_after_update [of "\<lambda>t. sql_lower t = sql_lower q" title url "books d"]
    by (simp add: get_book_by_title_def upsert_book_def Let_def)
  with assms show ?thesis
    by (cases "get_book_by_title q d") (auto split: if_splits)
next
  case False
  define n where "n = next_rowid (books_seq d) (map fst (books d))"
  from False have new: "books (upsert_book title url d) = books d @ [(n, title, url)]"
    by (simp add: upsert_book_def Let_def n_def)
  show ?thesis
  proof (cases "get_book_by_title q d")
    case None
    with assms new have "(book_id, st, u) = (n, title, url)"
      by (auto simp: get_book_by_title_def find_after_append split: if_splits)
    with None False new show ?thesis
      by (simp add: find_appended_title)
  next
    case (Some row)
    with assms new show ?thesis
      by (auto simp: get_book_by_title_def find_after_append)
  qed
qed

lemma second_call_resorts:
  assumes first: "on_search_title w entry d = (Retrieved bt tw, d1)"
    and second: "on_search_title w entry d1 = (Loaded st rows, d2)"
  shows "rows = sort_key (\<lambda>(wd, f). (- f, wd)) tw \<and> d2 = d1"
proof -
  from on_search_title_Retrieved [OF first]
  have web: "from_web w (py_strip entry) d = (Retrieved bt tw, d1)"
    and miss: "case get_book_by_title (py_strip entry) d of
                 None \<Rightarrow> True
               | Some (book_id, st, u) \<Rightarrow> stored_rows book_id d = []"
    by simp_all
  from from_web_Retrieved [OF web] obtain loc body
    where tw: "tw = compute_top_words body 10"
      and stored: "insert_or_update_book bt loc tw d = (Inr (), d1)"
    by blast
  from insert_or_update_book_stored [OF stored] obtain new_id
    where bk: "books d1 = books (upsert_book bt loc d)"
      and new_id: "find (\<lambda>(i, t, u). t = bt) (books d1) = Some (new_id, bt, loc)"
      and rows_after: "\<And>b. stored_rows b d1 = (if b = new_id then tw else stored_rows b d)"
    by auto
  from on_search_title_Loaded [OF second] obtain hit_id u
    where same: "d2 = d1"
      and hit: "get_book_by_title (py_strip entry) d1 = Some (hit_id, st, u)"
      and rows: "rows = take 10 (get_word_frequencies hit_id d1)"
      and nonempty: "stored_rows hit_id d1 \<noteq> []"
    by blast
  have "get_book_by_title (py_strip entry) d1 =
      get_book_by_title (py_strip entry) (upsert_book bt loc d)"
    by (simp add: get_book_by_title_def bk)
  with hit have "get_book_by_title (py_strip entry) (upsert_book bt loc d) = Some (hit_id, st, u)"
    by simp
  from get_book_by_title_after_upsert [OF this]
  have "hit_id = new_id"
  proof
    assume "\<exists>st' u'. get_book_by_title (py_strip entry) d = Some (hit_id, st', u')"
    with miss have "stored_rows hit_id d = []" by auto
    with nonempty rows_after [of hit_id] show ?thesis
      by (auto split: if_splits)
  next
    assume "get_book_by_title (py_strip entry) d = None \<and>
      find (\<lambda>(i, t, u). t = bt) (books (upsert_book bt loc d)) = Some (hit_id, bt, loc)"
    with new_id bk show ?thesis by simp
  qed
  then have "get_word_frequencies hit_id d1 = sort_key (\<lambda>(wd, f). (- f, wd)) tw"
    by (simp add: get_word_frequencies_stored_rows rows_after)
  moreover have "length tw \<le> 10"
    unfolding tw using most_common_length [of 10] by (simp add: compute_top_words_def Let_def)
  ultimately show ?thesis
    using rows same by simp
qed

text \<open>
  C3. Two calls in a row for the same title, the first answering from the web and the
  second from the store, show the same pairs in different orders: the first in the order of
  \<open>most_common\<close>, the second in the order of the query (count descending, word
  ascending).
\<close>

theorem cached_answer_reorders_ties:
  "fst (on_search_title example_web ''cats'' (init_db None)) =
     Retrieved ''Cats''
       [(''cat'', 2), (''title'', 1), (''cats'', 1), (''sat'', 1), (''mat'', 1), (''ran'', 1)] \<and>
   fst (on_search_title example_web ''cats''
          (snd (on_search_title example_web ''cats'' (init_db None)))) =
     Loaded ''Cats''
       [(''cat'', 2), (''cats'', 1), (''mat'', 1), (''ran'', 1), (''sat'', 1), (''title'', 1)]"
  unfolding example_web_def example_catalog_def by code_simp

end
